theory Spec2Isabelle
  imports Complex_Main "HOL-Library.Multiset" "HOL-Library.Char_ord" "HOL-Library.List_Lexorder"
begin

section \<open>Tasks\<close>

text \<open>
  The client's \<^verbatim>\<open>Task\<close> interface and the server's \<^verbatim>\<open>ITask\<close> document carry the same
  attributes. Instants (\<^verbatim>\<open>Date\<close> values and ISO date strings) are the number of
  milliseconds since the epoch, which is what \<^verbatim>\<open>getTime()\<close> and the aggregation's
  \<^verbatim>\<open>$subtract\<close> read. The enums \<^verbatim>\<open>TaskPriority\<close> and \<^verbatim>\<open>TaskStatus\<close> are plain
  strings at run time; a priority that is missing from the object is \<open>None\<close>.
  JavaScript and MongoDB numbers are taken as exact reals.
\<close>

record Task =
  task_id :: string
  title :: string
  description :: string
  priority :: "string option"
  status :: string
  dueDate :: int
  category :: "string option"
  userId :: string
  createdAt :: int
  updatedAt :: int
  completedAt :: "int option"

definition HIGH :: string where "HIGH = ''high''"
definition MEDIUM :: string where "MEDIUM = ''medium''"
definition LOW :: string where "LOW = ''low''"

definition PENDING :: string where "PENDING = ''pending''"
definition IN_PROGRESS :: string where "IN_PROGRESS = ''in_progress''"
definition COMPLETED :: string where "COMPLETED = ''completed''"

section \<open>Sorting with a comparator\<close>

text \<open>
  \<^verbatim>\<open>Array.prototype.sort(compareFn)\<close> and the \<^verbatim>\<open>$sort\<close> stage order elements by the sign
  of a comparator. The sort is a stable insertion sort: an element is placed before the
  first element it does not have to follow.
\<close>

fun insert_by :: "('a \<Rightarrow> 'a \<Rightarrow> real) \<Rightarrow> 'a \<Rightarrow> 'a list \<Rightarrow> 'a list" where
  "insert_by cmp x [] = [x]"
| "insert_by cmp x (y # ys) = (if cmp x y \<le> 0 then x # y # ys else y # insert_by cmp x ys)"

definition sort_by :: "('a \<Rightarrow> 'a \<Rightarrow> real) \<Rightarrow> 'a list \<Rightarrow> 'a list" where
  "sort_by cmp xs = foldr (insert_by cmp) xs []"

section \<open>Client ranking: taskSorting.ts\<close>

definition getPriorityScore :: "string option \<Rightarrow> real" where
  "getPriorityScore p =
     (if p = Some HIGH then 3
      else if p = Some MEDIUM then 2
      else if p = Some LOW then 1
      else 1)"

definition getUrgencyScore :: "int \<Rightarrow> int \<Rightarrow> real" where
  "getUrgencyScore now due =
     (let diffInDays = \<lceil>real_of_int (due - now) / (1000 * 60 * 60 * 24)\<rceil>
      in if diffInDays < 0 then 10
         else if diffInDays = 0 then 8
         else if diffInDays = 1 then 6
         else if diffInDays \<le> 3 then 4
         else if diffInDays \<le> 7 then 2
         else 1)"

definition getRecencyScore :: "int \<Rightarrow> int \<Rightarrow> real" where
  "getRecencyScore now created =
     (let diffInHours = real_of_int (now - created) / (1000 * 60 * 60)
      in if diffInHours \<le> 1 then 5
         else if diffInHours \<le> 24 then 3
         else if diffInHours \<le> 72 then 2
         else 1)"

definition compositeScore :: "int \<Rightarrow> Task \<Rightarrow> real" where
  "compositeScore now t =
     getPriorityScore (priority t) * 0.4
     + getUrgencyScore now (dueDate t) * 0.5
     + getRecencyScore now (createdAt t) * 0.1"

text \<open>The comparator passed to \<^verbatim>\<open>sort\<close> in \<^verbatim>\<open>smartSortTasks\<close>.\<close>

definition compareTasks :: "int \<Rightarrow> Task \<Rightarrow> Task \<Rightarrow> real" where
  "compareTasks now a b =
     (if status a = COMPLETED \<and> status b \<noteq> COMPLETED then 1
      else if status b = COMPLETED \<and> status a \<noteq> COMPLETED then - 1
      else if status a = COMPLETED \<and> status b = COMPLETED
        then real_of_int (updatedAt b - updatedAt a)
      else compositeScore now b - compositeScore now a)"

definition smartSortTasks :: "int \<Rightarrow> Task list \<Rightarrow> Task list" where
  "smartSortTasks now tasks = sort_by (compareTasks now) tasks"

section \<open>Server ranking: Task.ts, getSmartSortedTasks\<close>

definition priorityScore :: "string option \<Rightarrow> real" where
  "priorityScore p =
     (if p = Some ''high'' then 3
      else if p = Some ''medium'' then 2
      else if p = Some ''low'' then 1
      else 2)"

definition urgencyScore :: "int \<Rightarrow> int \<Rightarrow> real" where
  "urgencyScore now due =
     (if due \<le> now then 10 else 86400000 / real_of_int (due - now))"

definition smartScore :: "int \<Rightarrow> Task \<Rightarrow> real" where
  "smartScore now t =
     priorityScore (priority t) * 2
     + urgencyScore now (dueDate t) * 3
     + real_of_int (now - createdAt t) / 86400000"

text \<open>
  The \<^verbatim>\<open>$sort\<close> stage \<^verbatim>\<open>{ status: 1, smartScore: -1, createdAt: -1 }\<close>: status ascending
  in the binary order of strings, then score descending, then creation time descending.
\<close>

definition sortCompare :: "int \<Rightarrow> Task \<Rightarrow> Task \<Rightarrow> real" where
  "sortCompare now a b =
     (if status a < status b then - 1
      else if status b < status a then 1
      else if smartScore now a > smartScore now b then - 1
      else if smartScore now a < smartScore now b then 1
      else if createdAt a > createdAt b then - 1
      else if createdAt a < createdAt b then 1
      else 0)"

definition getSmartSortedTasks :: "int \<Rightarrow> string \<Rightarrow> (Task \<Rightarrow> bool) \<Rightarrow> Task list \<Rightarrow> Task list" where
  "getSmartSortedTasks now uid filters collection =
     sort_by (sortCompare now) (filter (\<lambda>t. userId t = uid \<and> filters t) collection)"

text \<open>
  \<^verbatim>\<open>smartSortTasks\<close> on the array store. Arrays are objects: a store is the list of the
  arrays allocated so far and a reference is an index into it. \<^verbatim>\<open>[...tasks]\<close> allocates
  a copy, \<^verbatim>\<open>sort\<close> sorts the array it is called on in place and returns that array.
\<close>

type_synonym heap = "Task list list"

definition spread :: "heap \<Rightarrow> nat \<Rightarrow> nat \<times> heap" where
  "spread h r = (length h, h @ [h ! r])"

definition sort_in_place :: "(Task \<Rightarrow> Task \<Rightarrow> real) \<Rightarrow> heap \<Rightarrow> nat \<Rightarrow> nat \<times> heap" where
  "sort_in_place cmp h r = (r, h[r := sort_by cmp (h ! r)])"

definition smartSortTasks_heap :: "int \<Rightarrow> heap \<Rightarrow> nat \<Rightarrow> nat \<times> heap" where
  "smartSortTasks_heap now h tasks =
     (case spread h tasks of (copy, h1) \<Rightarrow> sort_in_place (compareTasks now) h1 copy)"

section \<open>Offline queue: offlineQueue.ts\<close>

subsection \<open>Pending operations\<close>

record TaskForm =
  form_title :: string
  form_description :: string
  form_priority :: "string option"
  form_dueDate :: int
  form_category :: "string option"

text \<open>\<^verbatim>\<open>Partial<TaskForm>\<close>: every field may be absent.\<close>

record TaskUpdates =
  upd_title :: "string option"
  upd_description :: "string option"
  upd_priority :: "string option"
  upd_dueDate :: "int option"
  upd_category :: "string option"

text \<open>
  \<^verbatim>\<open>type\<close> and \<^verbatim>\<open>data\<close> of a \<^verbatim>\<open>PendingOperation\<close> form a tagged union. The three producers
  build \<^verbatim>\<open>{...taskData, tempId}\<close> for CREATE, \<^verbatim>\<open>{id, updates}\<close> for UPDATE and \<^verbatim>\<open>{id}\<close>
  for DELETE.
\<close>

datatype OperationData =
    CREATE TaskForm "string option"
  | UPDATE string TaskUpdates
  | DELETE string

record PendingOperation =
  op_id :: string
  op_data :: OperationData
  timestamp :: int

text \<open>\<^verbatim>\<open>Date.now().toString()\<close>: the decimal digits of the clock reading.\<close>

fun decimal :: "nat \<Rightarrow> string" where
  "decimal n =
     (if n < 10 then [''0123456789'' ! n]
      else decimal (n div 10) @ [''0123456789'' ! (n mod 10)])"

declare decimal.simps [simp del]

text \<open>A JavaScript string that may be \<^verbatim>\<open>undefined\<close> is truthy when present and non-empty.\<close>

definition truthy :: "string option \<Rightarrow> bool" where
  "truthy s = (case s of None \<Rightarrow> False | Some v \<Rightarrow> v \<noteq> [])"

subsection \<open>AsyncStorage\<close>

text \<open>
  The three keys the queue manager uses, with the parsed value under each (\<open>None\<close> when
  the key is absent). A read or a write of the device storage may be rejected; the two
  flags say whether it is during the call at hand.
\<close>

record Storage =
  offlineQueue :: "PendingOperation list option"
  tempTasks :: "Task list option"
  cachedTasks :: "Task list option"
  readFails :: bool
  writeFails :: bool

datatype StorageError = StorageError

definition getItem :: "(Storage \<Rightarrow> 'v option) \<Rightarrow> Storage \<Rightarrow> StorageError + 'v option" where
  "getItem key st = (if readFails st then Inl StorageError else Inr (key st))"

definition setItem ::
  "(('v option \<Rightarrow> 'v option) \<Rightarrow> Storage \<Rightarrow> Storage) \<Rightarrow> 'v \<Rightarrow> Storage \<Rightarrow> StorageError + Storage" where
  "setItem key_update v st =
     (if writeFails st then Inl StorageError else Inr (key_update (\<lambda>_. Some v) st))"

definition removeItem ::
  "(('v option \<Rightarrow> 'v option) \<Rightarrow> Storage \<Rightarrow> Storage) \<Rightarrow> Storage \<Rightarrow> StorageError + Storage" where
  "removeItem key_update st =
     (if writeFails st then Inl StorageError else Inr (key_update (\<lambda>_. None) st))"

subsection \<open>Queue operations\<close>

definition getOfflineQueue :: "Storage \<Rightarrow> PendingOperation list" where
  "getOfflineQueue st =
     (case getItem offlineQueue st of
        Inl error \<Rightarrow> []
      | Inr None \<Rightarrow> []
      | Inr (Some queueData) \<Rightarrow> queueData)"

text \<open>
  The result of the call is \<open>Inr ()\<close> when the promise resolves and \<open>Inl\<close> when it
  rejects. The \<^verbatim>\<open>catch\<close> block logs and falls through.
\<close>

definition addToOfflineQueue ::
  "int \<Rightarrow> OperationData \<Rightarrow> Storage \<Rightarrow> (StorageError + unit) \<times> Storage" where
  "addToOfflineQueue now operation st =
     (let queue = getOfflineQueue st;
          newOperation = \<lparr>op_id = decimal (nat now), op_data = operation, timestamp = now\<rparr>
      in case setItem offlineQueue_update (queue @ [newOperation]) st of
           Inl error \<Rightarrow> (Inr (), st)
         | Inr st' \<Rightarrow> (Inr (), st'))"

definition clearTempTasks :: "Storage \<Rightarrow> Storage" where
  "clearTempTasks st =
     (case removeItem tempTasks_update st of Inl error \<Rightarrow> st | Inr st' \<Rightarrow> st')"

subsection \<open>Identity reconciliation\<close>

text \<open>
  \<^verbatim>\<open>tempTaskMappings\<close> is an object used as a dictionary: assigning to a key that exists
  replaces its value, assigning to a new key adds it.
\<close>

type_synonym IdMappings = "(string \<times> string) list"

definition assign :: "IdMappings \<Rightarrow> string \<Rightarrow> string \<Rightarrow> IdMappings" where
  "assign mappings k v =
     (if k \<in> set (map fst mappings)
      then map (\<lambda>(k', v'). if k' = k then (k', v) else (k', v')) mappings
      else mappings @ [(k, v)])"

text \<open>The body of the \<^verbatim>\<open>forEach\<close> in \<^verbatim>\<open>updateCachedTasksWithRealIds\<close>.\<close>

definition applyMappings :: "IdMappings \<Rightarrow> Task \<Rightarrow> Task" where
  "applyMappings mappings task =
     (if truthy (map_of mappings (task_id task))
      then task\<lparr>task_id := the (map_of mappings (task_id task))\<rparr>
      else task)"

definition updateCachedTasksWithRealIds :: "IdMappings \<Rightarrow> Storage \<Rightarrow> Storage" where
  "updateCachedTasksWithRealIds mappings st =
     (case getItem cachedTasks st of
        Inl error \<Rightarrow> st
      | Inr None \<Rightarrow> st
      | Inr (Some tasks) \<Rightarrow>
          (let updated = list_ex (\<lambda>task. truthy (map_of mappings (task_id task))) tasks
           in if updated
              then (case setItem cachedTasks_update (map (applyMappings mappings) tasks) st of
                      Inl error \<Rightarrow> st
                    | Inr st' \<Rightarrow> st')
              else st))"

subsection \<open>The remote API as the drain sees it\<close>

text \<open>
  \<^verbatim>\<open>taskAPI.createTask\<close>, \<^verbatim>\<open>updateTask\<close> and \<^verbatim>\<open>deleteTask\<close> send one request each and
  return the response envelope, of which the drain reads \<^verbatim>\<open>success\<close> and
  \<^verbatim>\<open>data?._id\<close>. \<open>Raises\<close> is a call whose result cannot be read (the inner
  \<^verbatim>\<open>try\<close> of the loop catches it). The remote service is a parameter: a transition
  function on a state of its own.
\<close>

datatype ApiRequest =
    CreateTaskCall TaskForm
  | UpdateTaskCall string TaskUpdates
  | DeleteTaskCall string

datatype ApiResponse = ApiResponse bool "string option" | Raises

type_synonym 'srv taskAPI = "'srv \<Rightarrow> ApiRequest \<Rightarrow> ApiResponse \<times> 'srv"

subsection \<open>processOfflineQueue\<close>

text \<open>
  The state of the \<^verbatim>\<open>for\<close> loop: the two local accumulators, the remote service, and the
  calls made so far.
\<close>

record 'srv DrainState =
  successfulOperations :: "string list"
  tempTaskMappings :: IdMappings
  server :: 'srv
  sent :: "ApiRequest list"

definition call :: "'srv taskAPI \<Rightarrow> 'srv DrainState \<Rightarrow> ApiRequest \<Rightarrow> ApiResponse \<times> 'srv DrainState" where
  "call api s request =
     (case api (server s) request of
        (response, srv') \<Rightarrow> (response, s\<lparr>server := srv', sent := sent s @ [request]\<rparr>))"

definition pushSuccessful :: "string \<Rightarrow> 'srv DrainState \<Rightarrow> 'srv DrainState" where
  "pushSuccessful i s = s\<lparr>successfulOperations := successfulOperations s @ [i]\<rparr>"

text \<open>One iteration of the loop: the \<^verbatim>\<open>switch\<close> on the operation type.\<close>

definition syncOperation ::
  "'srv taskAPI \<Rightarrow> 'srv DrainState \<Rightarrow> PendingOperation \<Rightarrow> 'srv DrainState" where
  "syncOperation api s operation =
     (case op_data operation of
        CREATE taskDataForAPI tempId \<Rightarrow>
          (case call api s (CreateTaskCall taskDataForAPI) of
             (Raises, s1) \<Rightarrow> s1
           | (ApiResponse success data_id, s1) \<Rightarrow>
               if success
               then (let s2 = pushSuccessful (op_id operation) s1
                     in if truthy tempId \<and> truthy data_id
                        then s2\<lparr>tempTaskMappings :=
                                 assign (tempTaskMappings s2) (the tempId) (the data_id)\<rparr>
                        else s2)
               else s1)
      | UPDATE task updates \<Rightarrow>
          (case call api s (UpdateTaskCall task updates) of
             (Raises, s1) \<Rightarrow> s1
           | (ApiResponse success data_id, s1) \<Rightarrow>
               if success then pushSuccessful (op_id operation) s1 else s1)
      | DELETE task \<Rightarrow>
          (case call api s (DeleteTaskCall task) of
             (Raises, s1) \<Rightarrow> s1
           | (ApiResponse success data_id, s1) \<Rightarrow>
               if success then pushSuccessful (op_id operation) s1 else s1))"

definition drainFrom ::
  "'srv taskAPI \<Rightarrow> 'srv DrainState \<Rightarrow> PendingOperation list \<Rightarrow> 'srv DrainState" where
  "drainFrom api s queue = foldl (syncOperation api) s queue"

definition drainLoop :: "'srv taskAPI \<Rightarrow> 'srv \<Rightarrow> PendingOperation list \<Rightarrow> 'srv DrainState" where
  "drainLoop api srv queue =
     drainFrom api \<lparr>successfulOperations = [], tempTaskMappings = [], server = srv, sent = []\<rparr> queue"

definition processOfflineQueue :: "'srv taskAPI \<Rightarrow> 'srv \<Rightarrow> Storage \<Rightarrow> 'srv \<times> Storage" where
  "processOfflineQueue api srv st =
     (let queue = getOfflineQueue st
      in if queue = [] then (srv, st)
         else
           (let s = drainLoop api srv queue;
                st1 = (if tempTaskMappings s \<noteq> []
                       then updateCachedTasksWithRealIds (tempTaskMappings s) st
                       else st)
            in if successfulOperations s \<noteq> []
               then (let remainingQueue =
                           filter (\<lambda>op. op_id op \<notin> set (successfulOperations s)) queue
                     in case setItem offlineQueue_update remainingQueue st1 of
                          Inl error \<Rightarrow> (server s, st1)
                        | Inr st2 \<Rightarrow>
                            if remainingQueue = [] then (server s, clearTempTasks st2)
                            else (server s, st2))
               else (server s, st1)))"

subsection \<open>What a pass asks of the remote, and what it gets\<close>

text \<open>
  The call that one iteration makes for an operation, whether the remote confirms it
  in the state it is in, and the operations of a queue that a pass finds confirmed
  or not.
\<close>

definition requestOf :: "PendingOperation \<Rightarrow> ApiRequest" where
  "requestOf operation =
     (case op_data operation of
        CREATE taskDataForAPI tempId \<Rightarrow> CreateTaskCall taskDataForAPI
      | UPDATE task updates \<Rightarrow> UpdateTaskCall task updates
      | DELETE task \<Rightarrow> DeleteTaskCall task)"

definition confirms :: "'srv taskAPI \<Rightarrow> 'srv \<Rightarrow> PendingOperation \<Rightarrow> bool" where
  "confirms api srv operation =
     (case fst (api srv (requestOf operation)) of
        ApiResponse success data_id \<Rightarrow> success
      | Raises \<Rightarrow> False)"

fun outcomes :: "'srv taskAPI \<Rightarrow> 'srv \<Rightarrow> PendingOperation list \<Rightarrow> bool list" where
  "outcomes api srv [] = []"
| "outcomes api srv (operation # queue) =
     confirms api srv operation # outcomes api (snd (api srv (requestOf operation))) queue"

definition failedOperations :: "'srv taskAPI \<Rightarrow> 'srv \<Rightarrow> PendingOperation list \<Rightarrow> PendingOperation list" where
  "failedOperations api srv queue =
     map fst (filter (\<lambda>(operation, ok). \<not> ok) (zip queue (outcomes api srv queue)))"

definition confirmedOperations :: "'srv taskAPI \<Rightarrow> 'srv \<Rightarrow> PendingOperation list \<Rightarrow> PendingOperation list" where
  "confirmedOperations api srv queue =
     map fst (filter (\<lambda>(operation, ok). ok) (zip queue (outcomes api srv queue)))"

section \<open>Server persistence: Task.ts and the task controller\<close>

text \<open>
  The schema's \<^verbatim>\<open>pre('save')\<close> hook, "to set completedAt when status changes to
  completed". \<open>statusModified\<close> is \<^verbatim>\<open>this.isModified('status')\<close>; a \<^verbatim>\<open>Date\<close> is always
  truthy, so \<^verbatim>\<open>!this.completedAt\<close> holds exactly when the field is null.
\<close>

definition preSave :: "int \<Rightarrow> bool \<Rightarrow> Task \<Rightarrow> Task" where
  "preSave now statusModified doc =
     (if statusModified
      then (if status doc = COMPLETED \<and> completedAt doc = None
            then doc\<lparr>completedAt := Some now\<rparr>
            else if status doc \<noteq> COMPLETED then doc\<lparr>completedAt := None\<rparr>
            else doc)
      else doc)"

text \<open>
  \<^verbatim>\<open>Task.findOneAndUpdate(filter, update, { new: true })\<close> is a query: it writes the
  update to the first matching document and returns the updated document, or null when
  none matches. Document middleware registered for \<^verbatim>\<open>save\<close> does not run on a query.
\<close>

fun findOneAndUpdate ::
  "(Task \<Rightarrow> bool) \<Rightarrow> (Task \<Rightarrow> Task) \<Rightarrow> Task list \<Rightarrow> Task option \<times> Task list" where
  "findOneAndUpdate query update [] = (None, [])"
| "findOneAndUpdate query update (doc # docs) =
     (if query doc then (Some (update doc), update doc # docs)
      else (case findOneAndUpdate query update docs of
              (found, docs') \<Rightarrow> (found, doc # docs')))"

text \<open>
  The handler of \<^verbatim>\<open>PATCH /api/tasks/:id/complete\<close>: its reply (status code, \<^verbatim>\<open>success\<close>,
  \<^verbatim>\<open>data.task\<close>) and the collection afterwards. The schema's \<^verbatim>\<open>timestamps\<close> option makes
  the update set \<^verbatim>\<open>updatedAt\<close>. \<open>castable\<close> says which strings cast to an ObjectId; a
  failed cast raises and the \<^verbatim>\<open>catch\<close> block answers 500.
\<close>

datatype Reply = Reply nat bool "Task option"

definition completeTask ::
  "(string \<Rightarrow> bool) \<Rightarrow> int \<Rightarrow> string \<Rightarrow> string \<Rightarrow> Task list \<Rightarrow> Reply \<times> Task list" where
  "completeTask castable now uid i collection =
     (if castable uid \<and> castable i
      then (case findOneAndUpdate (\<lambda>doc. task_id doc = i \<and> userId doc = uid)
                   (\<lambda>doc. doc\<lparr>status := COMPLETED, updatedAt := now\<rparr>) collection of
              (None, collection') \<Rightarrow> (Reply 404 False None, collection')
            | (Some task, collection') \<Rightarrow> (Reply 200 True (Some task), collection'))
      else (Reply 500 False None, collection))"

text \<open>Twenty-four hexadecimal digits, the string form of an ObjectId.\<close>

definition isObjectIdString :: "string \<Rightarrow> bool" where
  "isObjectIdString s \<longleftrightarrow>
     length s = 24 \<and> list_all (\<lambda>c. c \<in> set ''0123456789abcdefABCDEF'') s"

section \<open>Sample data\<close>

text \<open>Concrete tasks at the reference instant \<open>1000000000\<close>, used to instantiate the results.\<close>

definition sampleTask :: Task where
  "sampleTask = \<lparr>task_id = ''t0'', title = ''Buy milk'', description = ''2 litres'',
     priority = Some MEDIUM, status = PENDING, dueDate = 1000000000,
     category = Some ''General'', userId = ''u1'', createdAt = 1000000000,
     updatedAt = 1000000000, completedAt = None\<rparr>"

definition noFilters :: "Task \<Rightarrow> bool" where
  "noFilters t = True"

text \<open>Overdue by one hour, low priority, created ten days ago.\<close>

definition overdueHour :: Task where
  "overdueHour = sampleTask\<lparr>task_id := ''a'', priority := Some LOW,
      dueDate := 1000000000 - 3600000, createdAt := 1000000000 - 864000000\<rparr>"

text \<open>Due in one hour, high priority, created just now.\<close>

definition dueInHour :: Task where
  "dueInHour = sampleTask\<lparr>task_id := ''b'', priority := Some HIGH,
      dueDate := 1000000000 + 3600000, createdAt := 1000000000\<rparr>"

text \<open>Overdue by two days, created just now.\<close>

definition overdueNew :: Task where
  "overdueNew = sampleTask\<lparr>task_id := ''c'', dueDate := 1000000000 - 172800000\<rparr>"

text \<open>Due in thirty days, created a hundred days ago.\<close>

definition dueInMonthOld :: Task where
  "dueInMonthOld = sampleTask\<lparr>task_id := ''d'', dueDate := 1000000000 + 2592000000,
      createdAt := 1000000000 - 8640000000\<rparr>"

definition dueTomorrow :: Task where
  "dueTomorrow = sampleTask\<lparr>task_id := ''e'', dueDate := 1000000000 + 86400000\<rparr>"

definition doneEarly :: Task where
  "doneEarly = sampleTask\<lparr>task_id := ''f'', status := COMPLETED, priority := Some HIGH,
      updatedAt := 1000000100, completedAt := Some 1000000100\<rparr>"

definition doneLate :: Task where
  "doneLate = sampleTask\<lparr>task_id := ''g'', status := COMPLETED, priority := Some LOW,
      updatedAt := 1000000900, completedAt := Some 1000000900\<rparr>"

text \<open>A remote that answers the calls of a pass from a fixed script, in order.\<close>

definition scripted :: "ApiResponse list taskAPI" where
  "scripted script request =
     (case script of [] \<Rightarrow> (Raises, []) | response # rest \<Rightarrow> (response, rest))"

definition sampleForm :: TaskForm where
  "sampleForm = \<lparr>form_title = ''Buy milk'', form_description = ''2 litres'',
     form_priority = Some MEDIUM, form_dueDate = 1086400000, form_category = None\<rparr>"

definition noUpdates :: TaskUpdates where
  "noUpdates = \<lparr>upd_title = None, upd_description = None, upd_priority = None,
     upd_dueDate = None, upd_category = None\<rparr>"

text \<open>A task created offline under a temporary id, its Create and a later Update.\<close>

definition tempTask :: Task where
  "tempTask = sampleTask\<lparr>task_id := ''temp_1000'', userId := ''temp_user''\<rparr>"

definition createOp :: PendingOperation where
  "createOp = \<lparr>op_id = ''1001'', op_data = CREATE sampleForm (Some ''temp_1000''),
     timestamp = 1001\<rparr>"

definition updateOp :: PendingOperation where
  "updateOp = \<lparr>op_id = ''1002'',
     op_data = UPDATE ''temp_1000'' (noUpdates\<lparr>upd_title := Some ''Buy oat milk''\<rparr>),
     timestamp = 1002\<rparr>"

definition offlineStore :: Storage where
  "offlineStore = \<lparr>offlineQueue = Some [createOp, updateOp], tempTasks = Some [tempTask],
     cachedTasks = Some [tempTask, doneEarly], readFails = False, writeFails = False\<rparr>"

text \<open>Three updates of one task, enqueued in this order.\<close>

definition firstEdit :: PendingOperation where
  "firstEdit = \<lparr>op_id = ''2001'',
     op_data = UPDATE ''task42'' (noUpdates\<lparr>upd_title := Some ''v1''\<rparr>), timestamp = 2001\<rparr>"

definition secondEdit :: PendingOperation where
  "secondEdit = \<lparr>op_id = ''2002'',
     op_data = UPDATE ''task42'' (noUpdates\<lparr>upd_title := Some ''v2''\<rparr>), timestamp = 2002\<rparr>"

definition thirdEdit :: PendingOperation where
  "thirdEdit = \<lparr>op_id = ''2003'',
     op_data = UPDATE ''task42'' (noUpdates\<lparr>upd_title := Some ''v3''\<rparr>), timestamp = 2003\<rparr>"

definition editStore :: Storage where
  "editStore = \<lparr>offlineQueue = Some [firstEdit, secondEdit, thirdEdit], tempTasks = None,
     cachedTasks = Some [sampleTask], readFails = False, writeFails = False\<rparr>"

text \<open>A pending task as the server stores it.\<close>

definition storedTask :: Task where
  "storedTask = sampleTask\<lparr>task_id := ''64b7f0c2a1d3e4f5a6b7c8d9'',
                            userId := ''64b7f0c2a1d3e4f5a6b7c8d0''\<rparr>"

section \<open>Properties of the comparator sort\<close>

lemma mset_insert_by: "mset (insert_by cmp x ys) = add_mset x (mset ys)"
  by (induction ys) auto

lemma mset_sort_by: "mset (sort_by cmp xs) = mset xs"
  by (induction xs) (auto simp: sort_by_def mset_insert_by)

lemma set_insert_by: "set (insert_by cmp x ys) = insert x (set ys)"
  by (induction ys) auto

lemma sorted_insert_by:
  assumes tot: "\<And>x y. cmp x y \<le> 0 \<or> cmp y x \<le> 0"
      and tr: "\<And>x y z. cmp x y \<le> 0 \<Longrightarrow> cmp y z \<le> 0 \<Longrightarrow> cmp x z \<le> 0"
      and srt: "sorted_wrt (\<lambda>x y. cmp x y \<le> 0) ys"
  shows "sorted_wrt (\<lambda>x y. cmp x y \<le> 0) (insert_by cmp x ys)"
  using srt
proof (induction ys)
  case Nil
  then show ?case by simp
next
  case (Cons y ys)
  show ?case
  proof (cases "cmp x y \<le> 0")
    case True
    with Cons.prems tr show ?thesis by auto
  next
    case False
    with tot have "cmp y x \<le> 0" by blast
    with False Cons show ?thesis by (auto simp: set_insert_by)
  qed
qed

lemma sorted_sort_by:
  assumes tot: "\<And>x y. cmp x y \<le> 0 \<or> cmp y x \<le> 0"
      and tr: "\<And>x y z. cmp x y \<le> 0 \<Longrightarrow> cmp y z \<le> 0 \<Longrightarrow> cmp x z \<le> 0"
  shows "sorted_wrt (\<lambda>x y. cmp x y \<le> 0) (sort_by cmp xs)"
proof (induction xs)
  case Nil
  then show ?case by (simp add: sort_by_def)
next
  case (Cons x xs)
  have "sort_by cmp (x # xs) = insert_by cmp x (sort_by cmp xs)"
    by (simp add: sort_by_def)
  with Cons sorted_insert_by[of cmp, OF tot tr] show ?case by simp
qed

text \<open>
  In a list sorted by a comparator, an element never stands before one that the
  comparator puts strictly first.
\<close>

lemma sorted_wrt_no_inversion:
  assumes "sorted_wrt (\<lambda>x y. cmp x y \<le> 0) (pre @ b # mid @ a # post)"
  shows "cmp b a \<le> 0"
  using assms by (simp add: sorted_wrt_append)

section \<open>The two comparators are total preorders\<close>

lemma compareTasks_le_iff:
  "compareTasks now x y \<le> 0 \<longleftrightarrow>
     (if status x = COMPLETED then status y = COMPLETED \<and> updatedAt y \<le> updatedAt x
      else status y = COMPLETED \<or> compositeScore now y \<le> compositeScore now x)"
  by (simp add: compareTasks_def)

lemma compareTasks_total: "compareTasks now x y \<le> 0 \<or> compareTasks now y x \<le> 0"
  unfolding compareTasks_le_iff by auto

lemma compareTasks_trans:
  "compareTasks now x y \<le> 0 \<Longrightarrow> compareTasks now y z \<le> 0 \<Longrightarrow> compareTasks now x z \<le> 0"
  unfolding compareTasks_le_iff by (auto split: if_splits)

lemma sorted_smartSortTasks:
  "sorted_wrt (\<lambda>x y. compareTasks now x y \<le> 0) (smartSortTasks now ts)"
  unfolding smartSortTasks_def
  by (rule sorted_sort_by) (rule compareTasks_total, erule (1) compareTasks_trans)

lemma sortCompare_le_iff:
  "sortCompare now x y \<le> 0 \<longleftrightarrow>
     status x < status y \<or>
     (status x = status y \<and>
        (smartScore now y < smartScore now x \<or>
         (smartScore now y = smartScore now x \<and> createdAt y \<le> createdAt x)))"
  unfolding sortCompare_def
  by (cases "status x < status y"; cases "status y < status x";
      cases "smartScore now y < smartScore now x"; cases "smartScore now x < smartScore now y";
      cases "createdAt x < createdAt y"; cases "createdAt y < createdAt x"; simp)

lemma sortCompare_total: "sortCompare now x y \<le> 0 \<or> sortCompare now y x \<le> 0"
  using less_linear[of "status x" "status y"]
        less_linear[of "smartScore now x" "smartScore now y"]
  unfolding sortCompare_le_iff by fastforce

lemma sortCompare_trans:
  assumes "sortCompare now x y \<le> 0" and "sortCompare now y z \<le> 0"
  shows "sortCompare now x z \<le> 0"
proof -
  from assms(1) consider (status) "status x < status y"
    | (score) "status x = status y" "smartScore now y < smartScore now x"
    | (created) "status x = status y" "smartScore now y = smartScore now x"
        "createdAt y \<le> createdAt x"
    unfolding sortCompare_le_iff by blast
  then show ?thesis
  proof cases
    case status
    with assms(2) show ?thesis
      unfolding sortCompare_le_iff
      using less_trans[of "status x" "status y" "status z"] by fastforce
  next
    case score
    with assms(2) show ?thesis unfolding sortCompare_le_iff by fastforce
  next
    case created
    with assms(2) show ?thesis unfolding sortCompare_le_iff by fastforce
  qed
qed

lemma sorted_getSmartSortedTasks:
  "sorted_wrt (\<lambda>x y. sortCompare now x y \<le> 0) (getSmartSortedTasks now uid filters coll)"
  unfolding getSmartSortedTasks_def
  by (rule sorted_sort_by) (rule sortCompare_total, erule (1) sortCompare_trans)

section \<open>The score components\<close>

lemma diffInDays_div:
  "\<lceil>real_of_int x / (1000 * 60 * 60 * 24)\<rceil> = - ((- x) div 86400000)"
proof -
  have "real_of_int x / (1000 * 60 * 60 * 24) = real_of_int x / real_of_int 86400000"
    by simp
  then show ?thesis by (simp only: ceiling_divide_eq_div)
qed

lemma getUrgencyScore_div:
  "getUrgencyScore now due =
     (let d = - ((now - due) div 86400000)
      in if d < 0 then 10 else if d = 0 then 8 else if d = 1 then 6
         else if d \<le> 3 then 4 else if d \<le> 7 then 2 else 1)"
  unfolding getUrgencyScore_def diffInDays_div by simp

lemma getPriorityScore_bounds: "1 \<le> getPriorityScore p \<and> getPriorityScore p \<le> 3"
  by (simp add: getPriorityScore_def)

lemma getRecencyScore_bounds: "1 \<le> getRecencyScore now c \<and> getRecencyScore now c \<le> 5"
  by (simp add: getRecencyScore_def Let_def)

lemma getUrgencyScore_bounds: "1 \<le> getUrgencyScore now d \<and> getUrgencyScore now d \<le> 10"
  by (simp add: getUrgencyScore_def Let_def)

lemma getUrgencyScore_overdue_day:
  assumes "due + 86400000 \<le> now"
  shows "getUrgencyScore now due = 10"
proof -
  from assms have "1 \<le> (now - due) div 86400000"
    by (simp add: pos_imp_zdiv_pos_iff)
  then show ?thesis by (simp add: getUrgencyScore_div Let_def)
qed

lemma getUrgencyScore_future:
  assumes "now < due"
  shows "getUrgencyScore now due \<le> 6"
proof -
  from assms have "(now - due) div 86400000 < 0"
    by (simp add: neg_imp_zdiv_neg_iff)
  then show ?thesis by (simp add: getUrgencyScore_div Let_def)
qed

lemma getUrgencyScore_mono:
  assumes "due1 \<le> due2"
  shows "getUrgencyScore now due2 \<le> getUrgencyScore now due1"
proof -
  from assms have "(now - due2) div 86400000 \<le> (now - due1) div 86400000"
    by (simp add: zdiv_mono1)
  then show ?thesis by (simp add: getUrgencyScore_div Let_def)
qed

lemma urgencyScore_strict:
  assumes "now < due1" "due1 < due2"
  shows "urgencyScore now due2 < urgencyScore now due1"
  using assms by (simp add: urgencyScore_def frac_less2)

lemma priorityScore_bounds: "1 \<le> priorityScore p \<and> priorityScore p \<le> 3"
  by (simp add: priorityScore_def)

lemma client_overdue_day:
  assumes "dueDate a + 86400000 \<le> now" "now < dueDate b"
  shows "compositeScore now b < compositeScore now a"
proof -
  have ua: "getUrgencyScore now (dueDate a) = 10"
    using assms(1) by (rule getUrgencyScore_overdue_day)
  have ub: "getUrgencyScore now (dueDate b) \<le> 6"
    using assms(2) by (rule getUrgencyScore_future)
  show ?thesis
    unfolding compositeScore_def ua
    using ub getPriorityScore_bounds[of "priority a"] getPriorityScore_bounds[of "priority b"]
          getRecencyScore_bounds[of now "createdAt a"] getRecencyScore_bounds[of now "createdAt b"]
    by simp
qed

lemma server_overdue:
  assumes "dueDate a \<le> now" "now + 10800000 \<le> dueDate b" "createdAt a \<le> createdAt b"
  shows "smartScore now b < smartScore now a"
proof -
  have ua: "urgencyScore now (dueDate a) = 10"
    using assms(1) by (simp add: urgencyScore_def)
  have "86400000 / real_of_int (dueDate b - now) \<le> 86400000 / real_of_int 10800000"
    using assms(2) by (intro divide_left_mono) auto
  then have ub: "urgencyScore now (dueDate b) \<le> 8"
    using assms(2) by (simp add: urgencyScore_def)
  have age: "real_of_int (now - createdAt b) / 86400000
             \<le> real_of_int (now - createdAt a) / 86400000"
    using assms(3) by (simp add: divide_right_mono)
  show ?thesis
    unfolding smartScore_def ua
    using ub age priorityScore_bounds[of "priority a"] priorityScore_bounds[of "priority b"]
    by linarith
qed

section \<open>Sorted output never inverts a strict comparison\<close>

lemma no_inversion_client:
  assumes "\<not> compareTasks now b a \<le> 0"
  shows "smartSortTasks now ts \<noteq> pre @ b # mid @ a # post"
proof
  assume "smartSortTasks now ts = pre @ b # mid @ a # post"
  with sorted_smartSortTasks[of now ts]
  have "compareTasks now b a \<le> 0" by (auto dest: sorted_wrt_no_inversion)
  with assms show False by simp
qed

lemma no_inversion_server:
  assumes "\<not> sortCompare now b a \<le> 0"
  shows "getSmartSortedTasks now uid filters coll \<noteq> pre @ b # mid @ a # post"
proof
  assume "getSmartSortedTasks now uid filters coll = pre @ b # mid @ a # post"
  with sorted_getSmartSortedTasks[of now uid filters coll]
  have "sortCompare now b a \<le> 0" by (auto dest: sorted_wrt_no_inversion)
  with assms show False by simp
qed

lemmas example_defs = sampleTask_def overdueHour_def dueInHour_def overdueNew_def
  dueInMonthOld_def dueTomorrow_def doneEarly_def doneLate_def noFilters_def
  HIGH_def MEDIUM_def LOW_def PENDING_def IN_PROGRESS_def COMPLETED_def

lemmas client_defs = smartSortTasks_def sort_by_def compareTasks_def compositeScore_def
  getUrgencyScore_div getRecencyScore_def getPriorityScore_def

lemmas server_defs = getSmartSortedTasks_def sort_by_def sortCompare_def smartScore_def
  urgencyScore_def priorityScore_def

section \<open>Ranking: overdue against future tasks\<close>

text \<open>
  C3, as stated, fails in both implementations. On the client a task overdue by less
  than a day falls into the "due today" bucket (urgency 8, since the ceiling of a
  fraction in \<open>(-1, 0]\<close> is 0), and a high-priority fresh task due within the next day
  outscores it: 4.7 against 4.5. On the server the age term grows without bound, so a
  task created long ago and due in a month outranks a task that is two days overdue.
\<close>

theorem overdue_before_future_counterexample:
  "status overdueHour \<noteq> COMPLETED \<and> status dueInHour \<noteq> COMPLETED
   \<and> dueDate overdueHour < 1000000000 \<and> 1000000000 < dueDate dueInHour
   \<and> smartSortTasks 1000000000 [overdueHour, dueInHour] = [dueInHour, overdueHour]
   \<and> status overdueNew \<noteq> COMPLETED \<and> status dueInMonthOld \<noteq> COMPLETED
   \<and> dueDate overdueNew < 1000000000 \<and> 1000000000 < dueDate dueInMonthOld
   \<and> getSmartSortedTasks 1000000000 ''u1'' noFilters [overdueNew, dueInMonthOld]
       = [dueInMonthOld, overdueNew]"
  by (simp add: client_defs server_defs example_defs)

text \<open>
  C3 (amended). For non-completed tasks \<open>a\<close>, \<open>b\<close> with \<open>a\<close> due strictly in the past
  and \<open>b\<close> due in the future: on the client, if \<open>a\<close> is overdue by at least one full
  day, the comparator puts \<open>a\<close> first and no output of \<open>smartSortTasks\<close> has \<open>b\<close>
  before \<open>a\<close>, whatever the priorities and creation times; on the server the same
  holds when the two tasks have the same status, \<open>b\<close> was not created before \<open>a\<close>, and
  \<open>b\<close> is due at least three hours from now.
\<close>

theorem overdue_before_future_amended:
  assumes "status a \<noteq> COMPLETED" "status b \<noteq> COMPLETED"
      and "dueDate a < now" "now < dueDate b"
  shows "(dueDate a + 86400000 \<le> now \<longrightarrow>
            compareTasks now a b < 0
            \<and> (\<forall>ts pre mid post. smartSortTasks now ts \<noteq> pre @ b # mid @ a # post))
       \<and> (status a = status b \<and> createdAt a \<le> createdAt b \<and> now + 10800000 \<le> dueDate b \<longrightarrow>
            sortCompare now a b < 0
            \<and> (\<forall>uid filters coll pre mid post.
                  getSmartSortedTasks now uid filters coll \<noteq> pre @ b # mid @ a # post))"
proof (intro conjI impI)
  assume "dueDate a + 86400000 \<le> now"
  with assms(4) have s: "compositeScore now b < compositeScore now a"
    by (intro client_overdue_day)
  with assms(1,2) show "compareTasks now a b < 0" by (simp add: compareTasks_def)
  from s assms(1,2) have "\<not> compareTasks now b a \<le> 0" by (simp add: compareTasks_def)
  then show "\<forall>ts pre mid post. smartSortTasks now ts \<noteq> pre @ b # mid @ a # post"
    by (intro allI no_inversion_client)
next
  assume h: "status a = status b \<and> createdAt a \<le> createdAt b \<and> now + 10800000 \<le> dueDate b"
  with assms(3) have s: "smartScore now b < smartScore now a"
    by (intro server_overdue) auto
  with h show "sortCompare now a b < 0" by (simp add: sortCompare_def)
  from s h have "\<not> sortCompare now b a \<le> 0" by (simp add: sortCompare_def)
  then show "\<forall>uid filters coll pre mid post.
      getSmartSortedTasks now uid filters coll \<noteq> pre @ b # mid @ a # post"
    by (intro allI no_inversion_server)
qed

text \<open>C3 (amended), at a task two days overdue and a task due tomorrow.\<close>

theorem overdue_before_future_amended_witness:
  "status overdueNew \<noteq> COMPLETED \<and> status dueTomorrow \<noteq> COMPLETED
   \<and> dueDate overdueNew < 1000000000 \<and> 1000000000 < dueDate dueTomorrow
   \<and> dueDate overdueNew + 86400000 \<le> 1000000000
   \<and> status overdueNew = status dueTomorrow \<and> createdAt overdueNew \<le> createdAt dueTomorrow
   \<and> 1000000000 + 10800000 \<le> dueDate dueTomorrow
   \<and> compareTasks 1000000000 overdueNew dueTomorrow < 0
   \<and> sortCompare 1000000000 overdueNew dueTomorrow < 0"
  using overdue_before_future_amended[of overdueNew dueTomorrow 1000000000]
  by (simp add: example_defs)

section \<open>Ranking: completed tasks\<close>

text \<open>
  The server's \<open>$sort\<close> stage orders by the status string ascending under the comment
  "Pending tasks first", and \<open>''completed''\<close> is the least of the three status strings:
  a completed task is placed before a pending one. This contradicts the stage's own
  comment and the client's comparator; it is a defect of the code, recorded here and
  kept out of the statements that follow.
\<close>

lemma server_status_order_defect:
  "status doneEarly = COMPLETED \<and> status sampleTask = PENDING
   \<and> getSmartSortedTasks 1000000000 ''u1'' noFilters [sampleTask, doneEarly]
       = [doneEarly, sampleTask]"
  by (simp add: server_defs example_defs)

text \<open>
  C4, as stated, fails on the server by design: two completed tasks are ordered by
  their score, not by their last update. Of the two completed tasks below the one
  updated later has the lower score and comes second.
\<close>

theorem completed_ordering_counterexample:
  "status doneEarly = COMPLETED \<and> status doneLate = COMPLETED
   \<and> updatedAt doneEarly < updatedAt doneLate
   \<and> getSmartSortedTasks 1000000000 ''u1'' noFilters [doneLate, doneEarly]
       = [doneEarly, doneLate]"
  by (simp add: server_defs example_defs)

text \<open>
  C4 (amended). On the client, no output of \<open>smartSortTasks\<close> has a completed task
  \<open>a\<close> before a task \<open>b\<close> that is not completed, and of two completed tasks the one
  updated more recently comes first. On the server, two tasks of the same status (two
  completed ones in particular) are ordered by \<open>smartScore\<close> descending and then by
  \<open>createdAt\<close> descending: the comparator puts \<open>a\<close> first exactly when \<open>a\<close> has the
  higher score, or the same score and the later creation time, and then no output of
  \<open>getSmartSortedTasks\<close> has \<open>b\<close> before \<open>a\<close>. How the server places a completed
  task against one that is not completed is not part of this statement.
\<close>

theorem completed_ordering_amended:
  "(status a = COMPLETED \<and> status b \<noteq> COMPLETED \<longrightarrow>
       compareTasks now b a < 0
       \<and> (\<forall>ts pre mid post. smartSortTasks now ts \<noteq> pre @ a # mid @ b # post))
   \<and> (status a = COMPLETED \<and> status b = COMPLETED \<and> updatedAt b < updatedAt a \<longrightarrow>
       compareTasks now a b < 0
       \<and> (\<forall>ts pre mid post. smartSortTasks now ts \<noteq> pre @ b # mid @ a # post))
   \<and> (status a = status b \<longrightarrow>
       (sortCompare now a b < 0 \<longleftrightarrow>
          smartScore now b < smartScore now a
          \<or> (smartScore now b = smartScore now a \<and> createdAt b < createdAt a)))
   \<and> (status a = status b
        \<and> (smartScore now b < smartScore now a
            \<or> (smartScore now b = smartScore now a \<and> createdAt b < createdAt a)) \<longrightarrow>
       (\<forall>uid filters coll pre mid post.
          getSmartSortedTasks now uid filters coll \<noteq> pre @ b # mid @ a # post))"
proof (intro conjI impI)
  assume h: "status a = COMPLETED \<and> status b \<noteq> COMPLETED"
  then show "compareTasks now b a < 0" by (simp add: compareTasks_def)
  from h have "\<not> compareTasks now a b \<le> 0" by (simp add: compareTasks_def)
  then show "\<forall>ts pre mid post. smartSortTasks now ts \<noteq> pre @ a # mid @ b # post"
    by (intro allI no_inversion_client)
next
  assume h: "status a = COMPLETED \<and> status b = COMPLETED \<and> updatedAt b < updatedAt a"
  then show "compareTasks now a b < 0" by (simp add: compareTasks_def)
  from h have "\<not> compareTasks now b a \<le> 0" by (simp add: compareTasks_def)
  then show "\<forall>ts pre mid post. smartSortTasks now ts \<noteq> pre @ b # mid @ a # post"
    by (intro allI no_inversion_client)
next
  assume "status a = status b"
  then show "sortCompare now a b < 0 \<longleftrightarrow>
          smartScore now b < smartScore now a
          \<or> (smartScore now b = smartScore now a \<and> createdAt b < createdAt a)"
    by (auto simp: sortCompare_def)
next
  assume h: "status a = status b
        \<and> (smartScore now b < smartScore now a
            \<or> (smartScore now b = smartScore now a \<and> createdAt b < createdAt a))"
  then have "\<not> sortCompare now b a \<le> 0" by (auto simp: sortCompare_le_iff)
  then show "\<forall>uid filters coll pre mid post.
      getSmartSortedTasks now uid filters coll \<noteq> pre @ b # mid @ a # post"
    by (intro allI no_inversion_server)
qed

text \<open>
  C4 (amended), at a completed and a pending task, and at two completed tasks: on the
  server the one with the higher score is never second.
\<close>

theorem completed_ordering_amended_witness:
  "status doneLate = COMPLETED \<and> status sampleTask \<noteq> COMPLETED
   \<and> compareTasks 1000000000 sampleTask doneLate < 0
   \<and> smartSortTasks 1000000000 [doneLate, sampleTask] \<noteq> [doneLate, sampleTask]
   \<and> status doneEarly = COMPLETED \<and> updatedAt doneEarly < updatedAt doneLate
   \<and> compareTasks 1000000000 doneLate doneEarly < 0
   \<and> smartSortTasks 1000000000 [doneEarly, doneLate] \<noteq> [doneEarly, doneLate]
   \<and> status doneEarly = status doneLate
   \<and> smartScore 1000000000 doneLate < smartScore 1000000000 doneEarly
   \<and> sortCompare 1000000000 doneEarly doneLate < 0
   \<and> getSmartSortedTasks 1000000000 ''u1'' noFilters [doneLate, doneEarly]
       \<noteq> [doneLate, doneEarly]"
proof -
  have s1: "status doneLate = COMPLETED" and s2: "status sampleTask \<noteq> COMPLETED"
    and s3: "status doneEarly = COMPLETED" and u: "updatedAt doneEarly < updatedAt doneLate"
    and s4: "status doneEarly = status doneLate"
    by (simp_all add: example_defs)
  have sc: "smartScore 1000000000 doneLate < smartScore 1000000000 doneEarly"
    by (simp add: smartScore_def urgencyScore_def priorityScore_def example_defs)
  note r1 = completed_ordering_amended[of doneLate sampleTask 1000000000]
  note r2 = completed_ordering_amended[of doneLate doneEarly 1000000000]
  note r3 = completed_ordering_amended[of doneEarly doneLate 1000000000]
  from r1 s1 s2 have a1: "compareTasks 1000000000 sampleTask doneLate < 0"
    and a2: "\<forall>ts pre mid post.
               smartSortTasks 1000000000 ts \<noteq> pre @ doneLate # mid @ sampleTask # post"
    by blast+
  from a2 have a3: "smartSortTasks 1000000000 [doneLate, sampleTask]
                    \<noteq> [] @ doneLate # [] @ sampleTask # []"
    by blast
  from r2 s1 s3 u have b1: "compareTasks 1000000000 doneLate doneEarly < 0"
    and b2: "\<forall>ts pre mid post.
               smartSortTasks 1000000000 ts \<noteq> pre @ doneEarly # mid @ doneLate # post"
    by blast+
  from b2 have b3: "smartSortTasks 1000000000 [doneEarly, doneLate]
                    \<noteq> [] @ doneEarly # [] @ doneLate # []"
    by blast
  from r3 s4 sc have c1: "sortCompare 1000000000 doneEarly doneLate < 0"
    and c2: "\<forall>uid filters coll pre mid post.
               getSmartSortedTasks 1000000000 uid filters coll
               \<noteq> pre @ doneLate # mid @ doneEarly # post"
    by blast+
  from c2 have c3: "getSmartSortedTasks 1000000000 ''u1'' noFilters [doneLate, doneEarly]
                    \<noteq> [] @ doneLate # [] @ doneEarly # []"
    by blast
  from a3 b3 c3 have a4: "smartSortTasks 1000000000 [doneLate, sampleTask] \<noteq> [doneLate, sampleTask]"
    and b4: "smartSortTasks 1000000000 [doneEarly, doneLate] \<noteq> [doneEarly, doneLate]"
    and c4: "getSmartSortedTasks 1000000000 ''u1'' noFilters [doneLate, doneEarly]
             \<noteq> [doneLate, doneEarly]"
    by simp_all
  show ?thesis
    by (intro conjI) (rule s1, rule s2, rule a1, rule a4, rule s3, rule u, rule b1, rule b4,
                      rule s4, rule sc, rule c1, rule c4)
qed

section \<open>Ranking: the priority score\<close>

text \<open>
  C6. The server scores a missing or unknown priority as medium (2). The client's
  \<open>getPriorityScore\<close> scores it 1, the score of low, although a medium task scores 2
  there as well. Known priorities score 3, 2, 1 in both.
\<close>

theorem unknown_priority_scores:
  "getPriorityScore None = 1 \<and> getPriorityScore (Some ''urgent'') = 1
   \<and> getPriorityScore (Some MEDIUM) = 2
   \<and> priorityScore None = 2 \<and> priorityScore (Some ''urgent'') = 2
   \<and> getPriorityScore (Some HIGH) = 3 \<and> getPriorityScore (Some LOW) = 1
   \<and> priorityScore (Some HIGH) = 3 \<and> priorityScore (Some MEDIUM) = 2
   \<and> priorityScore (Some LOW) = 1"
  by (simp add: getPriorityScore_def priorityScore_def HIGH_def MEDIUM_def LOW_def)

section \<open>Ranking: urgency and remaining time\<close>

text \<open>
  C7, as stated, fails on the client: urgency there is a step function of whole days,
  and tasks due in one hour and in two hours both score 6.
\<close>

theorem urgency_strict_counterexample:
  "(1000000000::int) < 1000000000 + 3600000
   \<and> (1000000000::int) + 3600000 < 1000000000 + 7200000
   \<and> \<not> getUrgencyScore 1000000000 (1000000000 + 7200000)
         < getUrgencyScore 1000000000 (1000000000 + 3600000)"
  by (simp add: getUrgencyScore_div)

text \<open>
  C7 (amended). For two due dates in the future at the same reference instant, the
  sooner one gets a strictly higher urgency score on the server and an urgency score at
  least as high on the client.
\<close>

theorem urgency_monotone_amended:
  assumes "now < due1" "due1 < due2"
  shows "urgencyScore now due2 < urgencyScore now due1
       \<and> getUrgencyScore now due2 \<le> getUrgencyScore now due1"
  using assms urgencyScore_strict[of now due1 due2] getUrgencyScore_mono[of due1 due2 now]
  by simp

text \<open>C7 (amended), at due dates one hour and two days ahead.\<close>

theorem urgency_monotone_amended_witness:
  "(1000000000::int) < 1000000000 + 3600000
   \<and> (1000000000::int) + 3600000 < 1000000000 + 172800000
   \<and> urgencyScore 1000000000 (1000000000 + 172800000)
       < urgencyScore 1000000000 (1000000000 + 3600000)
   \<and> getUrgencyScore 1000000000 (1000000000 + 172800000)
       \<le> getUrgencyScore 1000000000 (1000000000 + 3600000)"
  using urgency_monotone_amended[of 1000000000 "1000000000 + 3600000" "1000000000 + 172800000"]
  by simp

section \<open>smartSortTasks returns a fresh permutation\<close>

text \<open>
  C10. Called on an array of the store, \<open>smartSortTasks\<close> returns a reference that was
  not allocated before; every array that existed before the call, the input among
  them, is unchanged; and the returned array holds the sorted input, which has the
  same elements with the same multiplicities.
\<close>

theorem smartSortTasks_fresh_permutation:
  assumes "tasks < length h" and "smartSortTasks_heap now h tasks = (r, h')"
  shows "r = length h \<and> length h' = Suc (length h)
       \<and> (\<forall>q < length h. h' ! q = h ! q)
       \<and> h' ! r = smartSortTasks now (h ! tasks)
       \<and> mset (h' ! r) = mset (h ! tasks)"
proof -
  from assms(2) have r: "r = length h"
    and h': "h' = (h @ [h ! tasks])
                  [length h := sort_by (compareTasks now) ((h @ [h ! tasks]) ! length h)]"
    by (auto simp: smartSortTasks_heap_def spread_def sort_in_place_def)
  have len: "length h' = Suc (length h)" unfolding h' by simp
  have old: "\<forall>q < length h. h' ! q = h ! q" unfolding h' by (simp add: nth_append)
  have new: "h' ! r = smartSortTasks now (h ! tasks)"
    unfolding h' r smartSortTasks_def by simp
  have "mset (h' ! r) = mset (h ! tasks)"
    unfolding new smartSortTasks_def by (rule mset_sort_by)
  with r len old new show ?thesis by blast
qed

text \<open>C10, on a store holding one array of three tasks.\<close>

theorem smartSortTasks_fresh_permutation_witness:
  "(0::nat) < length [[sampleTask, doneEarly, overdueNew]]
   \<and> smartSortTasks_heap 1000000000 [[sampleTask, doneEarly, overdueNew]] 0
       = (1, [[sampleTask, doneEarly, overdueNew], [overdueNew, sampleTask, doneEarly]])
   \<and> mset [overdueNew, sampleTask, doneEarly] = mset [sampleTask, doneEarly, overdueNew]"
proof -
  have l: "(0::nat) < length [[sampleTask, doneEarly, overdueNew]]" by simp
  have e: "smartSortTasks_heap 1000000000 [[sampleTask, doneEarly, overdueNew]] 0
       = (1, [[sampleTask, doneEarly, overdueNew], [overdueNew, sampleTask, doneEarly]])"
    by (simp add: smartSortTasks_heap_def spread_def sort_in_place_def client_defs example_defs)
  from smartSortTasks_fresh_permutation[OF l e]
  have "mset ([[sampleTask, doneEarly, overdueNew], [overdueNew, sampleTask, doneEarly]] ! 1)
        = mset ([[sampleTask, doneEarly, overdueNew]] ! 0)" by blast
  then have m: "mset [overdueNew, sampleTask, doneEarly]
                = mset [sampleTask, doneEarly, overdueNew]"
    by simp
  show ?thesis by (intro conjI) (rule l, rule e, rule m)
qed

section \<open>The drain loop\<close>

lemma sent_syncOperation: "sent (syncOperation api s operation) = sent s @ [requestOf operation]"
  by (auto simp: syncOperation_def requestOf_def call_def pushSuccessful_def Let_def
           split: OperationData.splits prod.splits ApiResponse.splits)

lemma server_syncOperation:
  "server (syncOperation api s operation) = snd (api (server s) (requestOf operation))"
  by (auto simp: syncOperation_def requestOf_def call_def pushSuccessful_def Let_def
           split: OperationData.splits prod.splits ApiResponse.splits)

lemma successful_syncOperation:
  "successfulOperations (syncOperation api s operation) =
     successfulOperations s @ (if confirms api (server s) operation then [op_id operation] else [])"
  by (auto simp: syncOperation_def requestOf_def call_def pushSuccessful_def Let_def confirms_def
           split: OperationData.splits prod.splits ApiResponse.splits)

lemma sent_drainFrom: "sent (drainFrom api s queue) = sent s @ map requestOf queue"
  unfolding drainFrom_def
  by (induction queue arbitrary: s) (simp_all add: sent_syncOperation)

lemma successful_drainFrom:
  "successfulOperations (drainFrom api s queue) =
     successfulOperations s @ map op_id (confirmedOperations api (server s) queue)"
  unfolding drainFrom_def confirmedOperations_def
  by (induction queue arbitrary: s)
     (simp_all add: successful_syncOperation server_syncOperation)

lemma set_confirmed_failed:
  "set (confirmedOperations api srv queue) \<union> set (failedOperations api srv queue) = set queue"
proof -
  have len: "length (outcomes api srv queue) = length queue" for srv
    by (induction queue arbitrary: srv) simp_all
  have "set (map fst (filter (\<lambda>(operation, ok). ok) zs)) \<union> set (map fst (filter (\<lambda>(operation, ok). \<not> ok) zs)) = set (map fst zs)" for zs :: "(PendingOperation \<times> bool) list"
    by (induction zs) auto
  then show ?thesis unfolding confirmedOperations_def failedOperations_def
    using len by (metis map_fst_zip)
qed

lemma remaining_is_failed:
  assumes "distinct (map op_id queue)"
  shows "filter (\<lambda>op. op_id op \<notin> op_id ` set (confirmedOperations api srv queue)) queue
         = failedOperations api srv queue"
  using assms
proof (induction queue arbitrary: srv)
  case Nil
  then show ?case by (simp add: failedOperations_def)
next
  case (Cons a queue)
  let ?srv' = "snd (api srv (requestOf a))"
  have sub: "set (confirmedOperations api ?srv' queue) \<subseteq> set queue"
    using set_confirmed_failed[of api ?srv' queue] by blast
  from Cons.prems have notin: "op_id a \<notin> op_id ` set queue" and d: "distinct (map op_id queue)"
    by auto
  have IH: "filter (\<lambda>op. op_id op \<notin> op_id ` set (confirmedOperations api ?srv' queue)) queue
         = failedOperations api ?srv' queue" using Cons.IH[OF d] .
  have cf: "confirmedOperations api srv (a # queue) =
       (if confirms api srv a then [a] else []) @ confirmedOperations api ?srv' queue"
    by (simp add: confirmedOperations_def)
  have ff: "failedOperations api srv (a # queue) =
       (if confirms api srv a then [] else [a]) @ failedOperations api ?srv' queue"
    by (simp add: failedOperations_def)
  have rest: "filter (\<lambda>op. op_id op \<notin> op_id ` set (confirmedOperations api srv (a # queue))) queue
      = filter (\<lambda>op. op_id op \<notin> op_id ` set (confirmedOperations api ?srv' queue)) queue"
  proof (intro filter_cong refl)
    fix x assume "x \<in> set queue"
    with notin have "op_id x \<noteq> op_id a" by (metis image_eqI)
    then show "(op_id x \<notin> op_id ` set (confirmedOperations api srv (a # queue)))
        = (op_id x \<notin> op_id ` set (confirmedOperations api ?srv' queue))"
      by (cases "confirms api srv a") (auto simp: cf)
  qed
  have a_in: "op_id a \<notin> op_id ` set (confirmedOperations api ?srv' queue)"
    using notin sub by blast
  show ?case
    unfolding filter.simps rest IH ff using a_in by (simp add: cf)
qed

lemmas queue_defs = processOfflineQueue_def drainLoop_def drainFrom_def syncOperation_def
  call_def pushSuccessful_def getOfflineQueue_def getItem_def setItem_def removeItem_def
  clearTempTasks_def updateCachedTasksWithRealIds_def applyMappings_def assign_def truthy_def
  scripted_def

lemmas queue_sample_defs = sampleForm_def noUpdates_def tempTask_def createOp_def updateOp_def
  offlineStore_def firstEdit_def secondEdit_def thirdEdit_def editStore_def

section \<open>Storage after a pass\<close>

lemma applyMappings_unmapped:
  assumes "\<not> list_ex (\<lambda>task. truthy (map_of m (task_id task))) tasks"
  shows "map (applyMappings m) tasks = tasks"
  using assms by (induction tasks) (auto simp: applyMappings_def)

lemma updateCached_cases:
  "updateCachedTasksWithRealIds m st =
     (if readFails st \<or> writeFails st then st
      else case cachedTasks st of None \<Rightarrow> st
           | Some tasks \<Rightarrow> st\<lparr>cachedTasks := Some (map (applyMappings m) tasks)\<rparr>)"
proof (cases "cachedTasks st")
  case None
  then show ?thesis
    by (simp add: updateCachedTasksWithRealIds_def getItem_def)
next
  case (Some tasks)
  show ?thesis
  proof (cases "list_ex (\<lambda>task. truthy (map_of m (task_id task))) tasks")
    case True
    with Some show ?thesis
      by (simp add: updateCachedTasksWithRealIds_def getItem_def setItem_def)
  next
    case False
    then have "map (applyMappings m) tasks = tasks" by (rule applyMappings_unmapped)
    with False Some show ?thesis
      by (simp add: updateCachedTasksWithRealIds_def getItem_def setItem_def)
  qed
qed

lemma updateCached_frame:
  "offlineQueue (updateCachedTasksWithRealIds m st) = offlineQueue st"
  "readFails (updateCachedTasksWithRealIds m st) = readFails st"
  "writeFails (updateCachedTasksWithRealIds m st) = writeFails st"
  by (simp_all add: updateCached_cases split: option.splits)

lemma clearTempTasks_frame:
  "offlineQueue (clearTempTasks st) = offlineQueue st"
  "cachedTasks (clearTempTasks st) = cachedTasks st"
  by (simp_all add: clearTempTasks_def removeItem_def)

lemma processOfflineQueue_queue:
  assumes "\<not> readFails st" "\<not> writeFails st" "offlineQueue st = Some queue"
  shows "offlineQueue (snd (processOfflineQueue api srv st))
         = Some (filter (\<lambda>op. op_id op \<notin> op_id ` set (confirmedOperations api srv queue)) queue)"
proof -
  have q: "getOfflineQueue st = queue"
    using assms by (simp add: getOfflineQueue_def getItem_def)
  have succ: "successfulOperations (drainLoop api srv queue)
              = map op_id (confirmedOperations api srv queue)"
    by (simp add: drainLoop_def successful_drainFrom)
  show ?thesis
  proof (cases "confirmedOperations api srv queue = []")
    case True
    then have "successfulOperations (drainLoop api srv queue) = []" using succ by simp
    with q assms True show ?thesis
      by (simp add: processOfflineQueue_def Let_def updateCached_frame)
  next
    case False
    then have ne: "successfulOperations (drainLoop api srv queue) \<noteq> []" using succ by simp
    have setq: "set (successfulOperations (drainLoop api srv queue))
                = op_id ` set (confirmedOperations api srv queue)"
      using succ by simp
    from False have "queue \<noteq> []" by (auto simp: confirmedOperations_def)
    with q ne assms show ?thesis
      by (simp add: processOfflineQueue_def Let_def setq setItem_def clearTempTasks_frame
                    updateCached_frame)
  qed
qed

lemma processOfflineQueue_cache:
  assumes "\<not> readFails st" "\<not> writeFails st" "offlineQueue st = Some queue"
      and "cachedTasks st = Some tasks"
      and "tempTaskMappings (drainLoop api srv queue) \<noteq> []"
  shows "cachedTasks (snd (processOfflineQueue api srv st))
         = Some (map (applyMappings (tempTaskMappings (drainLoop api srv queue))) tasks)"
proof -
  have q: "getOfflineQueue st = queue"
    using assms by (simp add: getOfflineQueue_def getItem_def)
  from assms(5) have "queue \<noteq> []" by (auto simp: drainLoop_def drainFrom_def)
  with q assms show ?thesis
    by (simp add: processOfflineQueue_def Let_def setItem_def clearTempTasks_frame
                  updateCached_cases)
qed

lemma map_of_replace:
  "map_of (map (\<lambda>(k', v'). if k' = k then (k', v) else (k', v')) m) x
   = (if x = k then (if map_of m k = None then None else Some v) else map_of m x)"
proof (induction m)
  case Nil
  then show ?case by simp
next
  case (Cons kv m)
  obtain a b where kv: "kv = (a, b)" by (cases kv)
  show ?case unfolding kv using Cons.IH by (cases "a = k") auto
qed

lemma map_of_assign: "map_of (assign m k v) = (map_of m)(k \<mapsto> v)"
proof (cases "map_of m k = None")
  case True
  then have "k \<notin> set (map fst m)" by (simp add: map_of_eq_None_iff)
  with True show ?thesis
    by (auto simp: assign_def fun_eq_iff map_add_def split: option.splits)
next
  case False
  then have "k \<in> set (map fst m)" by (simp add: map_of_eq_None_iff)
  with False show ?thesis by (simp add: assign_def fun_eq_iff map_of_replace)
qed

lemma mappings_syncOperation_other:
  assumes "\<forall>form. op_data operation \<noteq> CREATE form (Some t)"
  shows "map_of (tempTaskMappings (syncOperation api s operation)) t
         = map_of (tempTaskMappings s) t"
  using assms
  by (auto simp: syncOperation_def call_def pushSuccessful_def Let_def map_of_assign truthy_def
           split: OperationData.splits prod.splits ApiResponse.splits option.splits)

lemma mappings_drainFrom_other:
  assumes "\<forall>operation \<in> set queue. \<forall>form. op_data operation \<noteq> CREATE form (Some t)"
  shows "map_of (tempTaskMappings (drainFrom api s queue)) t = map_of (tempTaskMappings s) t"
  using assms unfolding drainFrom_def
  by (induction queue arbitrary: s) (simp_all add: mappings_syncOperation_other)

lemma mappings_syncOperation_create:
  assumes "op_data operation = CREATE form (Some t)" "t \<noteq> []"
      and "api (server s) (CreateTaskCall form) = (ApiResponse True (Some p), srv')" "p \<noteq> []"
  shows "map_of (tempTaskMappings (syncOperation api s operation)) t = Some p"
  using assms
  by (simp add: syncOperation_def call_def pushSuccessful_def Let_def map_of_assign truthy_def)

lemma mappings_drainLoop_create:
  assumes "op_data operation = CREATE form (Some t)" "t \<noteq> []"
      and "api (server (drainLoop api srv before)) (CreateTaskCall form)
           = (ApiResponse True (Some p), srv')" "p \<noteq> []"
      and "\<forall>later \<in> set after. \<forall>form'. op_data later \<noteq> CREATE form' (Some t)"
  shows "map_of (tempTaskMappings (drainLoop api srv (before @ operation # after))) t = Some p"
proof -
  let ?s = "drainLoop api srv before"
  have "drainLoop api srv (before @ operation # after)
        = drainFrom api (syncOperation api ?s operation) after"
    by (simp add: drainLoop_def drainFrom_def)
  then show ?thesis
    using mappings_drainFrom_other[OF assms(5), of api "syncOperation api ?s operation"]
          mappings_syncOperation_create[where api = api and s = "drainLoop api srv before", OF assms(1,2,3,4)]
    by simp
qed

lemma applyMappings_idem:
  assumes "\<forall>t p. map_of m t = Some p \<longrightarrow> map_of m p = None"
  shows "applyMappings m (applyMappings m task) = applyMappings m task"
  using assms by (auto simp: applyMappings_def truthy_def split: option.splits)

lemma preSave_invariant:
  "completedAt (preSave now True doc) \<noteq> None \<longleftrightarrow> status (preSave now True doc) = COMPLETED"
  by (auto simp: preSave_def)

section \<open>Reconciliation after a confirmed Create\<close>

text \<open>
  C1, as stated, fails in its second half. A pass rewrites the cached task, but the
  Update queued for the temporary id is sent to the remote with the temporary id, and
  when it stays queued its payload still carries the temporary id.
\<close>

theorem reconciliation_queue_counterexample:
  "processOfflineQueue scripted [ApiResponse True (Some ''abc123''), ApiResponse False None]
       offlineStore
     = ([], offlineStore\<lparr>offlineQueue := Some [updateOp],
                          cachedTasks := Some [tempTask\<lparr>task_id := ''abc123''\<rparr>, doneEarly]\<rparr>)
   \<and> op_data updateOp
     = UPDATE ''temp_1000'' (noUpdates\<lparr>upd_title := Some ''Buy oat milk''\<rparr>)
   \<and> sent (drainLoop scripted [ApiResponse True (Some ''abc123''), ApiResponse False None]
             [createOp, updateOp])
     = [CreateTaskCall sampleForm,
        UpdateTaskCall ''temp_1000'' (noUpdates\<lparr>upd_title := Some ''Buy oat milk''\<rparr>)]"
  by (simp add: queue_defs queue_sample_defs example_defs Let_def)

text \<open>
  C1 (amended). Let the stored queue hold a Create carrying the temporary id \<open>t\<close>, let
  the remote answer it with success and the permanent id \<open>p\<close>, let no later Create
  of the pass carry \<open>t\<close>, and let the storage be healthy with a cache present. After
  the pass every cache entry whose id was \<open>t\<close> has id \<open>p\<close>, at the same position and
  with its other attributes unchanged. The queue is only filtered: the operations that
  stay queued are the original ones, payloads untouched, and the calls of the pass are
  the ones the queued operations name, so an Update or Delete queued for \<open>t\<close> targets
  \<open>t\<close>.
\<close>

theorem reconciliation_amended:
  assumes "\<not> readFails st" "\<not> writeFails st"
      and "offlineQueue st = Some (before @ operation # after)"
      and "cachedTasks st = Some tasks"
      and "op_data operation = CREATE form (Some t)" "t \<noteq> []"
      and "api (server (drainLoop api srv before)) (CreateTaskCall form)
           = (ApiResponse True (Some p), srv')" "p \<noteq> []"
      and "\<forall>later \<in> set after. \<forall>form'. op_data later \<noteq> CREATE form' (Some t)"
  shows "(\<exists>cache. cachedTasks (snd (processOfflineQueue api srv st)) = Some cache
            \<and> length cache = length tasks
            \<and> (\<forall>i < length tasks. task_id (tasks ! i) = t \<longrightarrow>
                   cache ! i = (tasks ! i)\<lparr>task_id := p\<rparr>))
       \<and> offlineQueue (snd (processOfflineQueue api srv st))
           = Some (filter (\<lambda>op. op_id op
                      \<notin> op_id ` set (confirmedOperations api srv (before @ operation # after)))
                    (before @ operation # after))
       \<and> sent (drainLoop api srv (before @ operation # after))
           = map requestOf (before @ operation # after)"
proof -
  let ?queue = "before @ operation # after"
  let ?m = "tempTaskMappings (drainLoop api srv ?queue)"
  have m: "map_of ?m t = Some p"
    using assms(5-9) by (rule mappings_drainLoop_create)
  then have ne: "?m \<noteq> []" by auto
  have cache: "cachedTasks (snd (processOfflineQueue api srv st))
               = Some (map (applyMappings ?m) tasks)"
    using assms(1-4) ne by (rule processOfflineQueue_cache)
  have "\<forall>i < length tasks. task_id (tasks ! i) = t \<longrightarrow>
          map (applyMappings ?m) tasks ! i = (tasks ! i)\<lparr>task_id := p\<rparr>"
    using m assms(8) by (simp add: applyMappings_def truthy_def)
  with cache have a: "\<exists>cache. cachedTasks (snd (processOfflineQueue api srv st)) = Some cache
            \<and> length cache = length tasks
            \<and> (\<forall>i < length tasks. task_id (tasks ! i) = t \<longrightarrow>
                   cache ! i = (tasks ! i)\<lparr>task_id := p\<rparr>)"
    by simp
  have b: "offlineQueue (snd (processOfflineQueue api srv st))
           = Some (filter (\<lambda>op. op_id op \<notin> op_id ` set (confirmedOperations api srv ?queue)) ?queue)"
    using assms(1-3) by (rule processOfflineQueue_queue)
  have c: "sent (drainLoop api srv ?queue) = map requestOf ?queue"
    by (simp add: drainLoop_def sent_drainFrom)
  from a b c show ?thesis by blast
qed

text \<open>C1 (amended), at a queue holding a Create and an Update of the task it creates.\<close>

theorem reconciliation_amended_witness:
  "\<not> readFails offlineStore \<and> \<not> writeFails offlineStore
   \<and> offlineQueue offlineStore = Some [createOp, updateOp]
   \<and> cachedTasks offlineStore = Some [tempTask, doneEarly]
   \<and> task_id tempTask = ''temp_1000''
   \<and> op_data createOp = CREATE sampleForm (Some ''temp_1000'')
   \<and> op_data updateOp = UPDATE ''temp_1000'' (noUpdates\<lparr>upd_title := Some ''Buy oat milk''\<rparr>)
   \<and> scripted [ApiResponse True (Some ''abc123''), ApiResponse False None]
        (CreateTaskCall sampleForm)
       = (ApiResponse True (Some ''abc123''), [ApiResponse False None])
   \<and> (\<exists>cache. cachedTasks (snd (processOfflineQueue scripted
                  [ApiResponse True (Some ''abc123''), ApiResponse False None] offlineStore))
                = Some cache
          \<and> length cache = 2
          \<and> cache ! 0 = tempTask\<lparr>task_id := ''abc123''\<rparr>)
   \<and> sent (drainLoop scripted [ApiResponse True (Some ''abc123''), ApiResponse False None]
             [createOp, updateOp])
       = [requestOf createOp, requestOf updateOp]"
proof -
  let ?script = "[ApiResponse True (Some ''abc123''), ApiResponse False None]"
  have h1: "\<not> readFails offlineStore" and h2: "\<not> writeFails offlineStore"
    and h3: "offlineQueue offlineStore = Some ([] @ createOp # [updateOp])"
    and h4: "cachedTasks offlineStore = Some [tempTask, doneEarly]"
    by (simp_all add: offlineStore_def)
  have h5: "op_data createOp = CREATE sampleForm (Some ''temp_1000'')"
    by (simp add: createOp_def)
  have h6: "''temp_1000'' \<noteq> []" and h8: "''abc123'' \<noteq> []" by simp_all
  have h7: "scripted (server (drainLoop scripted ?script [])) (CreateTaskCall sampleForm)
            = (ApiResponse True (Some ''abc123''), [ApiResponse False None])"
    by (simp add: drainLoop_def drainFrom_def scripted_def)
  have h9: "\<forall>later \<in> set [updateOp]. \<forall>form'.
              op_data later \<noteq> CREATE form' (Some ''temp_1000'')"
    by (simp add: updateOp_def)
  have u: "op_data updateOp
           = UPDATE ''temp_1000'' (noUpdates\<lparr>upd_title := Some ''Buy oat milk''\<rparr>)"
    by (simp add: updateOp_def)
  have t: "task_id tempTask = ''temp_1000''" by (simp add: tempTask_def)
  have s: "scripted ?script (CreateTaskCall sampleForm)
           = (ApiResponse True (Some ''abc123''), [ApiResponse False None])"
    by (simp add: scripted_def)
  note r = reconciliation_amended[where api = scripted and srv = ?script and before = "[]"
      and operation = createOp and after = "[updateOp]", OF h1 h2 h3 h4 h5 h6 h7 h8 h9]
  from r obtain cache where
    c1: "cachedTasks (snd (processOfflineQueue scripted ?script offlineStore)) = Some cache"
    and c2: "length cache = length [tempTask, doneEarly]"
    and c3: "\<forall>i < length [tempTask, doneEarly].
               task_id ([tempTask, doneEarly] ! i) = ''temp_1000'' \<longrightarrow>
               cache ! i = ([tempTask, doneEarly] ! i)\<lparr>task_id := ''abc123''\<rparr>"
    by blast
  from c3 t have c4: "cache ! 0 = tempTask\<lparr>task_id := ''abc123''\<rparr>" by simp
  from c1 c2 c4 have a: "\<exists>cache.
      cachedTasks (snd (processOfflineQueue scripted ?script offlineStore)) = Some cache
      \<and> length cache = 2 \<and> cache ! 0 = tempTask\<lparr>task_id := ''abc123''\<rparr>"
    by simp
  from r have b: "sent (drainLoop scripted ?script [createOp, updateOp])
                  = [requestOf createOp, requestOf updateOp]"
    by simp
  from h3 have h3': "offlineQueue offlineStore = Some [createOp, updateOp]" by simp
  show ?thesis
    by (intro conjI) (rule h1, rule h2, rule h3', rule h4, rule t, rule h5, rule u, rule s,
                      rule a, rule b)
qed

section \<open>Order of a drain pass\<close>

text \<open>
  C2, as stated, fails in its first half. Of three updates of one task, the first
  succeeds and the second fails; the third is sent all the same, succeeds, and the
  second alone stays queued.
\<close>

theorem drain_order_counterexample:
  "sent (drainLoop scripted [ApiResponse True None, ApiResponse False None, ApiResponse True None]
           [firstEdit, secondEdit, thirdEdit])
     = [requestOf firstEdit, requestOf secondEdit, requestOf thirdEdit]
   \<and> processOfflineQueue scripted
        [ApiResponse True None, ApiResponse False None, ApiResponse True None] editStore
     = ([], editStore\<lparr>offlineQueue := Some [secondEdit]\<rparr>)"
  by (simp add: queue_defs queue_sample_defs example_defs requestOf_def Let_def)

text \<open>
  C2 (amended). With a healthy storage, a pass calls the remote once for every
  operation of the stored queue, in queue order, whether or not an earlier operation
  failed. Afterwards the stored queue holds, in their original order, the operations
  whose id is not the id of a confirmed operation; when the ids of the queue are
  pairwise distinct these are exactly the operations that failed.
\<close>

theorem drain_order_amended:
  assumes "\<not> readFails st" "\<not> writeFails st" "offlineQueue st = Some queue"
  shows "sent (drainLoop api srv queue) = map requestOf queue
       \<and> offlineQueue (snd (processOfflineQueue api srv st))
           = Some (filter (\<lambda>op. op_id op \<notin> op_id ` set (confirmedOperations api srv queue)) queue)
       \<and> (distinct (map op_id queue) \<longrightarrow>
            offlineQueue (snd (processOfflineQueue api srv st))
              = Some (failedOperations api srv queue))"
proof -
  have a: "sent (drainLoop api srv queue) = map requestOf queue"
    by (simp add: drainLoop_def sent_drainFrom)
  have b: "offlineQueue (snd (processOfflineQueue api srv st))
           = Some (filter (\<lambda>op. op_id op \<notin> op_id ` set (confirmedOperations api srv queue)) queue)"
    using assms by (rule processOfflineQueue_queue)
  have c: "offlineQueue (snd (processOfflineQueue api srv st))
              = Some (failedOperations api srv queue)" if "distinct (map op_id queue)"
    unfolding b using remaining_is_failed[OF that] by simp
  from a b c show ?thesis by blast
qed

text \<open>C2 (amended), at three updates of which the first two succeed and the third fails.\<close>

theorem drain_order_amended_witness:
  "\<not> readFails editStore \<and> \<not> writeFails editStore
   \<and> offlineQueue editStore = Some [firstEdit, secondEdit, thirdEdit]
   \<and> distinct (map op_id [firstEdit, secondEdit, thirdEdit])
   \<and> sent (drainLoop scripted
             [ApiResponse True None, ApiResponse True None, ApiResponse False None]
             [firstEdit, secondEdit, thirdEdit])
       = map requestOf [firstEdit, secondEdit, thirdEdit]
   \<and> offlineQueue (snd (processOfflineQueue scripted
             [ApiResponse True None, ApiResponse True None, ApiResponse False None] editStore))
       = Some [thirdEdit]"
proof -
  let ?script = "[ApiResponse True None, ApiResponse True None, ApiResponse False None]"
  let ?queue = "[firstEdit, secondEdit, thirdEdit]"
  have f: "failedOperations scripted ?script ?queue = [thirdEdit]"
    by (simp add: failedOperations_def confirms_def requestOf_def scripted_def
                  queue_sample_defs)
  have h1: "\<not> readFails editStore" and h2: "\<not> writeFails editStore"
    and h3: "offlineQueue editStore = Some ?queue"
    by (simp_all add: editStore_def)
  have d: "distinct (map op_id ?queue)"
    by (simp add: queue_sample_defs)
  note r = drain_order_amended[OF h1 h2 h3, of scripted ?script]
  from r have a: "sent (drainLoop scripted ?script ?queue) = map requestOf ?queue"
    by (rule conjunct1)
  from r d have "offlineQueue (snd (processOfflineQueue scripted ?script editStore))
                 = Some (failedOperations scripted ?script ?queue)"
    by blast
  then have b: "offlineQueue (snd (processOfflineQueue scripted ?script editStore))
                = Some [thirdEdit]"
    unfolding f .
  show ?thesis by (intro conjI) (rule h1, rule h2, rule h3, rule d, rule a, rule b)
qed

section \<open>Reconciliation is idempotent\<close>

text \<open>
  C8. For every storage and every mapping from temporary to permanent ids (no
  permanent id is itself a key of the mapping), applying
  \<open>updateCachedTasksWithRealIds\<close> twice leaves the storage, cache and queue alike,
  as applying it once does.
\<close>

theorem reconcile_idempotent:
  assumes "\<forall>t p. map_of m t = Some p \<longrightarrow> map_of m p = None"
  shows "updateCachedTasksWithRealIds m (updateCachedTasksWithRealIds m st)
         = updateCachedTasksWithRealIds m st"
proof -
  have "map (applyMappings m) (map (applyMappings m) tasks) = map (applyMappings m) tasks"
    for tasks
    using applyMappings_idem[OF assms] by simp
  then show ?thesis
    by (simp add: updateCached_cases split: option.splits)
qed

text \<open>C8, at the mapping of one temporary id and a cache that holds it.\<close>

theorem reconcile_idempotent_witness:
  "map_of [(''temp_1000'', ''abc123'')] ''temp_1000'' = Some ''abc123''
   \<and> map_of [(''temp_1000'', ''abc123'')] ''abc123'' = None
   \<and> updateCachedTasksWithRealIds [(''temp_1000'', ''abc123'')] offlineStore
       = offlineStore\<lparr>cachedTasks := Some [tempTask\<lparr>task_id := ''abc123''\<rparr>, doneEarly]\<rparr>
   \<and> updateCachedTasksWithRealIds [(''temp_1000'', ''abc123'')]
        (updateCachedTasksWithRealIds [(''temp_1000'', ''abc123'')] offlineStore)
       = updateCachedTasksWithRealIds [(''temp_1000'', ''abc123'')] offlineStore"
proof -
  have h: "\<forall>t p. map_of [(''temp_1000'', ''abc123'')] t = Some p
        \<longrightarrow> map_of [(''temp_1000'', ''abc123'')] p = None"
    by simp
  have e: "updateCachedTasksWithRealIds [(''temp_1000'', ''abc123'')] offlineStore
       = offlineStore\<lparr>cachedTasks := Some [tempTask\<lparr>task_id := ''abc123''\<rparr>, doneEarly]\<rparr>"
    by (simp add: queue_defs queue_sample_defs example_defs)
  have m1: "map_of [(''temp_1000'', ''abc123'')] ''temp_1000'' = Some ''abc123''"
    and m2: "map_of [(''temp_1000'', ''abc123'')] ''abc123'' = None"
    by simp_all
  show ?thesis
    by (intro conjI) (rule m1, rule m2, rule e, rule reconcile_idempotent[OF h])
qed

section \<open>Enqueueing when the storage write fails\<close>

text \<open>
  C9, as stated, fails: with a storage that rejects writes, \<open>addToOfflineQueue\<close>
  resolves normally and the stored queue is what it was.
\<close>

theorem enqueue_failure_counterexample:
  "writeFails (offlineStore\<lparr>writeFails := True\<rparr>)
   \<and> addToOfflineQueue 3000 (DELETE ''task42'') (offlineStore\<lparr>writeFails := True\<rparr>)
       = (Inr (), offlineStore\<lparr>writeFails := True\<rparr>)"
  by (simp add: addToOfflineQueue_def queue_defs Let_def)

text \<open>
  C9 (amended). \<open>addToOfflineQueue\<close> never reports a failure to its caller. When the
  write is rejected the storage is left unchanged; when it is accepted the stored queue
  is the queue read before, with the new operation at its tail.
\<close>

theorem enqueue_amended:
  "fst (addToOfflineQueue now operation st) = Inr ()
   \<and> (writeFails st \<longrightarrow> snd (addToOfflineQueue now operation st) = st)
   \<and> (\<not> writeFails st \<longrightarrow>
        snd (addToOfflineQueue now operation st)
          = st\<lparr>offlineQueue := Some (getOfflineQueue st
               @ [\<lparr>op_id = decimal (nat now), op_data = operation, timestamp = now\<rparr>])\<rparr>)"
  by (simp add: addToOfflineQueue_def setItem_def Let_def)

text \<open>C9 (amended), at a storage that rejects writes and at one that accepts them.\<close>

theorem enqueue_amended_witness:
  "writeFails (offlineStore\<lparr>writeFails := True\<rparr>) \<and> \<not> writeFails offlineStore
   \<and> fst (addToOfflineQueue 3000 (DELETE ''task42'') (offlineStore\<lparr>writeFails := True\<rparr>)) = Inr ()
   \<and> snd (addToOfflineQueue 3000 (DELETE ''task42'') (offlineStore\<lparr>writeFails := True\<rparr>))
       = offlineStore\<lparr>writeFails := True\<rparr>
   \<and> snd (addToOfflineQueue 3000 (DELETE ''task42'') offlineStore)
       = offlineStore\<lparr>offlineQueue := Some [createOp, updateOp,
            \<lparr>op_id = ''3000'', op_data = DELETE ''task42'', timestamp = 3000\<rparr>]\<rparr>"
  using enqueue_amended[of 3000 "DELETE ''task42''" "offlineStore\<lparr>writeFails := True\<rparr>"]
        enqueue_amended[of 3000 "DELETE ''task42''" offlineStore]
  by (simp add: offlineStore_def getOfflineQueue_def getItem_def decimal.simps)

section \<open>Completing a task\<close>

text \<open>
  C5. The stored task is pending with a null \<open>completedAt\<close>. Completing it through
  \<open>completeTask\<close> succeeds, and the task returned and stored has status completed and
  a null \<open>completedAt\<close>: the update goes through \<open>findOneAndUpdate\<close>, which does not run
  the \<open>preSave\<close> hook.
\<close>

theorem completeTask_leaves_completedAt_null:
  "status storedTask = PENDING \<and> completedAt storedTask = None
   \<and> completeTask isObjectIdString 1000000500 ''64b7f0c2a1d3e4f5a6b7c8d0''
        ''64b7f0c2a1d3e4f5a6b7c8d9'' [storedTask]
       = (Reply 200 True (Some (storedTask\<lparr>status := COMPLETED, updatedAt := 1000000500\<rparr>)),
          [storedTask\<lparr>status := COMPLETED, updatedAt := 1000000500\<rparr>])
   \<and> status (storedTask\<lparr>status := COMPLETED, updatedAt := 1000000500\<rparr>) = COMPLETED
   \<and> completedAt (storedTask\<lparr>status := COMPLETED, updatedAt := 1000000500\<rparr>) = None"
  by (simp add: completeTask_def isObjectIdString_def storedTask_def example_defs)

end
